theory Spec2Isabelle
  imports Main "HOL-Library.Sublist" "HOL-Library.Multiset" "HOL-Library.Word"
begin

section \<open>Data model of \<open>src/App.jsx\<close>\<close>

text \<open>
  A JavaScript string is a sequence of 16-bit code units, and \<open>.length\<close> counts them.
  The strings of the catalog and of the search box are modelled as such sequences. The
  state cells that only ever hold identifiers written in the sources (\<open>viewMode\<close>,
  \<open>currentTheme\<close>, \<open>currentAccent\<close>) and the entries of the two tables stay
  \<^typ>\<open>string\<close>. \<open>str\<close> turns a literal into the sequence of its code units.
\<close>

type_synonym jsstring = "16 word list"

definition str :: "string \<Rightarrow> jsstring" where
  "str s = map of_char s"

text \<open>An entry of \<open>THEMES\<close> (lines 14-20) and of \<open>ACCENTS\<close> (lines 22-28).\<close>

record theme =
  theme_id :: string
  theme_name :: string
  isDark :: bool

record accent =
  accent_id :: string
  accent_name :: string
  color :: string
  dim :: string

definition THEMES :: "theme list" where
  "THEMES =
    [\<lparr>theme_id = ''light'', theme_name = ''Light'', isDark = False\<rparr>,
     \<lparr>theme_id = ''github'', theme_name = ''GitHub Dark'', isDark = True\<rparr>,
     \<lparr>theme_id = ''vscode'', theme_name = ''VS Code'', isDark = True\<rparr>,
     \<lparr>theme_id = ''dracula'', theme_name = ''Dracula'', isDark = True\<rparr>,
     \<lparr>theme_id = ''solarized'', theme_name = ''Solarized'', isDark = False\<rparr>]"

definition ACCENTS :: "accent list" where
  "ACCENTS =
    [\<lparr>accent_id = ''blue'', accent_name = ''Blue'', color = ''#2563eb'',
      dim = ''rgba(37, 99, 235, 0.15)''\<rparr>,
     \<lparr>accent_id = ''purple'', accent_name = ''Purple'', color = ''#9333ea'',
      dim = ''rgba(147, 51, 234, 0.15)''\<rparr>,
     \<lparr>accent_id = ''emerald'', accent_name = ''Emerald'', color = ''#059669'',
      dim = ''rgba(5, 150, 105, 0.15)''\<rparr>,
     \<lparr>accent_id = ''orange'', accent_name = ''Orange'', color = ''#ea580c'',
      dim = ''rgba(234, 88, 12, 0.15)''\<rparr>,
     \<lparr>accent_id = ''rose'', accent_name = ''Rose'', color = ''#e11d48'',
      dim = ''rgba(225, 29, 72, 0.15)''\<rparr>]"

text \<open>
  The catalog \<open>docData.json\<close> (imported as \<open>rawData\<close>, line 9) is not part of the
  sources; it is a parameter \<open>rawData\<close> of everything that reads it. Its shape is the one
  the components read: a list of folder groups, each with a \<open>folder\<close> string and a list
  of file records with the fields \<open>path\<close>, \<open>name\<close>, \<open>explanation\<close> and \<open>code\<close>.
\<close>

record file_record =
  path :: jsstring
  name :: jsstring
  explanation :: jsstring
  code :: jsstring

record folder_group =
  folder :: jsstring
  files :: "file_record list"

type_synonym catalog = "folder_group list"

text \<open>The eight \<open>useState\<close> cells of \<open>App\<close> (lines 91-99).\<close>

record app_state =
  selectedFile :: "file_record option"
  viewMode :: string
  currentTheme :: string
  currentAccent :: string
  searchTerm :: jsstring
  sidebarWidth :: int
  isResizing :: bool
  mobileMenuOpen :: bool

definition initial :: app_state where
  "initial =
    \<lparr>selectedFile = None, viewMode = ''explanation'', currentTheme = ''github'',
     currentAccent = ''emerald'', searchTerm = [], sidebarWidth = 280,
     isResizing = False, mobileMenuOpen = False\<rparr>"

section \<open>Event handlers\<close>

text \<open>The \<open>onSelect\<close> callback that \<open>App\<close> passes to \<open>FileTree\<close> (lines 261-265).\<close>

definition onSelect :: "file_record \<Rightarrow> app_state \<Rightarrow> app_state" where
  "onSelect file s =
    s\<lparr>selectedFile := Some file, viewMode := ''explanation'', mobileMenuOpen := False\<rparr>"

text \<open>The two tab buttons (lines 296 and 306) call \<open>setViewMode\<close> with a literal.\<close>

definition setViewMode :: "string \<Rightarrow> app_state \<Rightarrow> app_state" where
  "setViewMode m s = s\<lparr>viewMode := m\<rparr>"

definition clickExplanationTab :: "app_state \<Rightarrow> app_state" where
  "clickExplanationTab s = setViewMode ''explanation'' s"

definition clickCodeTab :: "app_state \<Rightarrow> app_state" where
  "clickCodeTab s = setViewMode ''code'' s"

text \<open>Sidebar resizing (lines 122-129); \<open>clientX\<close> is the pointer's x coordinate.\<close>

definition startResizing :: "app_state \<Rightarrow> app_state" where
  "startResizing s = s\<lparr>isResizing := True\<rparr>"

definition stopResizing :: "app_state \<Rightarrow> app_state" where
  "stopResizing s = s\<lparr>isResizing := False\<rparr>"

definition resize :: "int \<Rightarrow> app_state \<Rightarrow> app_state" where
  "resize clientX s =
    (if isResizing s then
       (let newWidth = clientX in
        if newWidth > 200 \<and> newWidth < 600 then s\<lparr>sidebarWidth := newWidth\<rparr> else s)
     else s)"

text \<open>The remaining setters: search box (line 182), pickers (lines 200 and 224), mobile
  menu (lines 166, 254 and 280).\<close>

definition setSearchTerm :: "jsstring \<Rightarrow> app_state \<Rightarrow> app_state" where
  "setSearchTerm v s = s\<lparr>searchTerm := v\<rparr>"

definition setCurrentAccent :: "string \<Rightarrow> app_state \<Rightarrow> app_state" where
  "setCurrentAccent a s = s\<lparr>currentAccent := a\<rparr>"

definition setCurrentTheme :: "string \<Rightarrow> app_state \<Rightarrow> app_state" where
  "setCurrentTheme t s = s\<lparr>currentTheme := t\<rparr>"

definition toggleMobileMenu :: "app_state \<Rightarrow> app_state" where
  "toggleMobileMenu s = s\<lparr>mobileMenuOpen := \<not> mobileMenuOpen s\<rparr>"

definition closeMobileMenu :: "app_state \<Rightarrow> app_state" where
  "closeMobileMenu s = s\<lparr>mobileMenuOpen := False\<rparr>"

section \<open>Search filter\<close>

text \<open>\<open>s.includes(t)\<close>: \<open>t\<close> occurs in \<open>s\<close> at some position.\<close>

fun includesStr :: "jsstring \<Rightarrow> jsstring \<Rightarrow> bool" where
  "includesStr [] t = (t = [])"
| "includesStr (c # s) t = (prefix t (c # s) \<or> includesStr s t)"

text \<open>
  The memoised \<open>filteredData\<close> (lines 141-148); \<open>!searchTerm\<close> holds of the empty
  string only. \<open>String.prototype.toLowerCase\<close> belongs to the language, not to the
  sources: it is the parameter \<open>toLowerCase\<close>, and what is proved of \<open>filteredData\<close>
  holds for every function in its place.
\<close>

definition filteredData :: "(jsstring \<Rightarrow> jsstring) \<Rightarrow> catalog \<Rightarrow> jsstring \<Rightarrow> catalog" where
  "filteredData toLowerCase rawData srch =
    (if srch = [] then rawData
     else
       (let lowerTerm = toLowerCase srch in
        filter (\<lambda>group. length (files group) > 0)
          (map (\<lambda>group.
              group\<lparr>files := filter (\<lambda>f. includesStr (toLowerCase (name f)) lowerTerm)
                (files group)\<rparr>)
            rawData)))"

text \<open>
  The specification's wording of the match, independent of the code: some contiguous
  part of the display name equals the term up to letter case, that is, the two have the
  same lower-case form.
\<close>

definition contains_ignoring_case :: "(jsstring \<Rightarrow> jsstring) \<Rightarrow> jsstring \<Rightarrow> jsstring \<Rightarrow> bool" where
  "contains_ignoring_case toLowerCase nm t =
    (\<exists>u \<in> set (sublists nm). toLowerCase u = toLowerCase t)"

text \<open>
  The values of \<open>String.prototype.toLowerCase\<close> on strings of the code units \<open>U+0000\<close> to
  \<open>U+00FF\<close> and \<open>U+0130\<close>, for the closed instances below. On that range the function
  works unit by unit: \<open>A\<close> to \<open>Z\<close> and \<open>U+00C0\<close> to \<open>U+00DE\<close> without the multiplication
  sign \<open>U+00D7\<close> go to the unit \<open>0x20\<close> above, \<open>U+0130\<close> (capital I with dot above)
  goes to the two units \<open>U+0069 U+0307\<close>, every other unit of the range stays. Units
  outside the range are not part of this table.
\<close>

definition lowerUnit :: "16 word \<Rightarrow> 16 word" where
  "lowerUnit c =
    (if (0x41 \<le> c \<and> c \<le> 0x5A) \<or> (0xC0 \<le> c \<and> c \<le> 0xDE \<and> c \<noteq> 0xD7) then c + 0x20 else c)"

definition lowerUnits :: "16 word \<Rightarrow> jsstring" where
  "lowerUnits c = (if c = 0x130 then [0x69, 0x307] else [lowerUnit c])"

definition toLowerCaseBasic :: "jsstring \<Rightarrow> jsstring" where
  "toLowerCaseBasic s = concat (map lowerUnits s)"

subsection \<open>The filter on the heap\<close>

text \<open>
  \<open>filteredData\<close> again, on the objects the code works with: arrays hold references,
  a group object holds its folder name and a reference to its \<open>files\<close> array. The heap is
  a list of cells, a reference is an index into it, and a new array or object literal takes
  the next free index. Reading a reference that does not hold the expected kind of cell
  gives \<open>None\<close>.
\<close>

datatype cell = ArrayCell "nat list" | GroupCell jsstring nat | FileCell file_record

type_synonym heap = "cell list"

definition alloc :: "heap \<Rightarrow> cell \<Rightarrow> heap \<times> nat" where
  "alloc h c = (h @ [c], length h)"

definition readArray :: "heap \<Rightarrow> nat \<Rightarrow> nat list option" where
  "readArray h a =
    (if a < length h then (case h ! a of ArrayCell xs \<Rightarrow> Some xs | _ \<Rightarrow> None) else None)"

definition readGroup :: "heap \<Rightarrow> nat \<Rightarrow> (jsstring \<times> nat) option" where
  "readGroup h a =
    (if a < length h then (case h ! a of GroupCell fd fa \<Rightarrow> Some (fd, fa) | _ \<Rightarrow> None) else None)"

definition readFile :: "heap \<Rightarrow> nat \<Rightarrow> file_record option" where
  "readFile h a =
    (if a < length h then (case h ! a of FileCell f \<Rightarrow> Some f | _ \<Rightarrow> None) else None)"

text \<open>\<open>group.files.filter(f => f.name.toLowerCase().includes(lowerTerm))\<close>: the references
  of the files that pass, in order.\<close>

fun filterFiles :: "(jsstring \<Rightarrow> jsstring) \<Rightarrow> heap \<Rightarrow> jsstring \<Rightarrow> nat list \<Rightarrow> nat list option" where
  "filterFiles toLowerCase h lowerTerm [] = Some []"
| "filterFiles toLowerCase h lowerTerm (a # as) =
    (case readFile h a of
       None \<Rightarrow> None
     | Some f \<Rightarrow>
         (case filterFiles toLowerCase h lowerTerm as of
            None \<Rightarrow> None
          | Some ks \<Rightarrow> Some (if includesStr (toLowerCase (name f)) lowerTerm then a # ks else ks)))"

text \<open>\<open>rawData.map(group => ({...group, files: ...}))\<close>: for every group a new \<open>files\<close>
  array and a new group object.\<close>

fun mapGroups :: "(jsstring \<Rightarrow> jsstring) \<Rightarrow> heap \<Rightarrow> jsstring \<Rightarrow> nat list \<Rightarrow> (heap \<times> nat list) option" where
  "mapGroups toLowerCase h lowerTerm [] = Some (h, [])"
| "mapGroups toLowerCase h lowerTerm (g # gs) =
    (case readGroup h g of
       None \<Rightarrow> None
     | Some (fd, fa) \<Rightarrow>
         (case readArray h fa of
            None \<Rightarrow> None
          | Some fs \<Rightarrow>
              (case filterFiles toLowerCase h lowerTerm fs of
                 None \<Rightarrow> None
               | Some ks \<Rightarrow>
                   (let (h1, ka) = alloc h (ArrayCell ks);
                        (h2, ga) = alloc h1 (GroupCell fd ka)
                    in (case mapGroups toLowerCase h2 lowerTerm gs of
                          None \<Rightarrow> None
                        | Some (h3, gas) \<Rightarrow> Some (h3, ga # gas))))))"

text \<open>\<open>.filter(group => group.files.length > 0)\<close>.\<close>

fun keepNonEmpty :: "heap \<Rightarrow> nat list \<Rightarrow> nat list option" where
  "keepNonEmpty h [] = Some []"
| "keepNonEmpty h (g # gs) =
    (case readGroup h g of
       None \<Rightarrow> None
     | Some (fd, fa) \<Rightarrow>
         (case readArray h fa of
            None \<Rightarrow> None
          | Some fs \<Rightarrow>
              (case keepNonEmpty h gs of
                 None \<Rightarrow> None
               | Some ks \<Rightarrow> Some (if length fs > 0 then g # ks else ks))))"

text \<open>Lines 141-148 on the heap: the result is the new heap and the reference of the
  filtered catalog, which is \<open>rawData\<close> itself for the empty term.\<close>

definition filteredDataHeap ::
  "(jsstring \<Rightarrow> jsstring) \<Rightarrow> heap \<Rightarrow> nat \<Rightarrow> jsstring \<Rightarrow> (heap \<times> nat) option" where
  "filteredDataHeap toLowerCase h rawData srch =
    (if srch = [] then Some (h, rawData)
     else
       (let lowerTerm = toLowerCase srch in
        case readArray h rawData of
          None \<Rightarrow> None
        | Some gs \<Rightarrow>
            (case mapGroups toLowerCase h lowerTerm gs of
               None \<Rightarrow> None
             | Some (h1, gas) \<Rightarrow>
                 (let (h2, ma) = alloc h1 (ArrayCell gas) in
                  case keepNonEmpty h2 gas of
                    None \<Rightarrow> None
                  | Some ks \<Rightarrow> Some (alloc h2 (ArrayCell ks))))))"

text \<open>The catalog a reference stands for: the value \<open>filteredData\<close> works on.\<close>

fun readFiles :: "heap \<Rightarrow> nat list \<Rightarrow> file_record list option" where
  "readFiles h [] = Some []"
| "readFiles h (a # as) =
    (case readFile h a of
       None \<Rightarrow> None
     | Some f \<Rightarrow> (case readFiles h as of None \<Rightarrow> None | Some fs \<Rightarrow> Some (f # fs)))"

definition readFolderGroup :: "heap \<Rightarrow> nat \<Rightarrow> folder_group option" where
  "readFolderGroup h g =
    (case readGroup h g of
       None \<Rightarrow> None
     | Some (fd, fa) \<Rightarrow>
         (case readArray h fa of
            None \<Rightarrow> None
          | Some as \<Rightarrow>
              (case readFiles h as of
                 None \<Rightarrow> None
               | Some fs \<Rightarrow> Some \<lparr>folder = fd, files = fs\<rparr>)))"

fun readGroups :: "heap \<Rightarrow> nat list \<Rightarrow> catalog option" where
  "readGroups h [] = Some []"
| "readGroups h (g # gs) =
    (case readFolderGroup h g of
       None \<Rightarrow> None
     | Some v \<Rightarrow> (case readGroups h gs of None \<Rightarrow> None | Some vs \<Rightarrow> Some (v # vs)))"

definition readCatalog :: "heap \<Rightarrow> nat \<Rightarrow> catalog option" where
  "readCatalog h a = (case readArray h a of None \<Rightarrow> None | Some gs \<Rightarrow> readGroups h gs)"

section \<open>File tree\<close>

text \<open>What the tree renders: a row per file, a node per folder group.\<close>

record file_row =
  row_key :: jsstring
  row_title :: jsstring
  row_selected :: bool
  row_onClick :: file_record

record group_node =
  displayName :: jsstring
  node_open :: bool
  node_rows :: "file_row list"

text \<open>
  \<open>FolderGroup\<close> (lines 48-86). \<open>isOpen\<close> is the component's own state cell;
  \<open>selectedPath\<close> is \<open>selectedFile?.path\<close>, absent when no file is selected. The result
  \<open>None\<close> is the \<open>null\<close> of line 51: nothing is rendered.
\<close>

definition FolderGroup :: "folder_group \<Rightarrow> bool \<Rightarrow> jsstring option \<Rightarrow> group_node option" where
  "FolderGroup fg isOpen selectedPath =
    (let dn = (if folder fg = str ''.'' then str ''Root'' else folder fg) in
     if length (files fg) = 0 then None
     else Some
       \<lparr>displayName = dn, node_open = isOpen,
        node_rows =
          (if isOpen then
             map (\<lambda>file.
                 \<lparr>row_key = path file, row_title = name file,
                  row_selected = (selectedPath = Some (path file)),
                  row_onClick = file\<rparr>)
               (files fg)
           else [])\<rparr>)"

text \<open>
  Line 33: a copy of \<open>data\<close> sorted with the comparator
  \<open>a.folder.length - b.folder.length\<close>. \<open>Array.prototype.sort\<close> is stable, so the result
  is the stable sort by the key \<open>folder.length\<close>.
\<close>

definition sortedFolders :: "catalog \<Rightarrow> catalog" where
  "sortedFolders data = sort_key (\<lambda>g. length (folder g)) data"

text \<open>
  \<open>FileTree\<close> (lines 32-46) returns one \<open>FolderGroup\<close> element per sorted group, with the
  folder name as its \<open>key\<close> (line 38) and the group and the selected path as its props
  (\<open>onSelect\<close> is the same callback for all).
\<close>

record element =
  el_key :: jsstring
  el_folder :: folder_group
  el_selectedPath :: "jsstring option"

definition FileTree :: "catalog \<Rightarrow> jsstring option \<Rightarrow> element list" where
  "FileTree data selectedPath =
    map (\<lambda>folderGroup.
        \<lparr>el_key = folder folderGroup, el_folder = folderGroup, el_selectedPath = selectedPath\<rparr>)
      (sortedFolders data)"

subsection \<open>Keyed children on the page\<close>

text \<open>
  What the page shows is what React makes of these elements. React is a library the
  sources import, and its treatment of the \<open>key\<close> decides what stays on the page, so its
  reconciliation of a keyed child list is written out here. A mounted \<open>FolderGroup\<close> is
  a child with its key, its current props and its state cell \<open>isOpen\<close>, which starts
  as \<open>true\<close> (line 49).
\<close>

record mounted =
  inst_key :: jsstring
  inst_folder :: folder_group
  inst_selectedPath :: "jsstring option"
  inst_isOpen :: bool

text \<open>\<open>elementOf\<close> is the element a child was last rendered from.\<close>

definition mountChild :: "element \<Rightarrow> mounted" where
  "mountChild el =
    \<lparr>inst_key = el_key el, inst_folder = el_folder el,
     inst_selectedPath = el_selectedPath el, inst_isOpen = True\<rparr>"

definition updateChild :: "mounted \<Rightarrow> element \<Rightarrow> mounted" where
  "updateChild i el = i\<lparr>inst_folder := el_folder el, inst_selectedPath := el_selectedPath el\<rparr>"

definition elementOf :: "mounted \<Rightarrow> element" where
  "elementOf c =
    \<lparr>el_key = inst_key c, el_folder = inst_folder c, el_selectedPath = inst_selectedPath c\<rparr>"

definition renderChild :: "mounted \<Rightarrow> group_node option" where
  "renderChild i = FolderGroup (inst_folder i) (inst_isOpen i) (inst_selectedPath i)"

text \<open>
  The reconciliation of the old children with the new elements:
  \<^item> as long as the next old child and the next element have the same key, the child is
    kept and gets the element's props;
  \<^item> when the elements run out, the remaining old children are removed; when the old
    children run out, the remaining elements are mounted;
  \<^item> otherwise the remaining old children are entered into a map from keys to children,
    a later child replacing an earlier one with the same key; every remaining element
    takes the child of its key out of the map, or is mounted when there is none; in the
    end the children still in the map are removed.

  An old child that was replaced in the map by a later one with the same key is neither
  reused nor removed: its node stays on the page and is never updated again.
\<close>

fun shadowed :: "mounted list \<Rightarrow> mounted list" where
  "shadowed [] = []"
| "shadowed (c # cs) =
    (if inst_key c \<in> set (map inst_key cs) then c # shadowed cs else shadowed cs)"

fun mapRemainingChildren :: "mounted list \<Rightarrow> mounted list" where
  "mapRemainingChildren [] = []"
| "mapRemainingChildren (c # cs) =
    (if inst_key c \<in> set (map inst_key cs) then mapRemainingChildren cs
     else c # mapRemainingChildren cs)"

fun updateFromMap :: "mounted list \<Rightarrow> element list \<Rightarrow> mounted list" where
  "updateFromMap existing [] = []"
| "updateFromMap existing (el # els) =
    (case find (\<lambda>c. inst_key c = el_key el) existing of
       Some c \<Rightarrow>
         updateChild c el #
           updateFromMap (filter (\<lambda>c. inst_key c \<noteq> el_key el) existing) els
     | None \<Rightarrow> mountChild el # updateFromMap existing els)"

text \<open>The result: the new children, and the old children left behind on the page.\<close>

fun reconcileChildren :: "mounted list \<Rightarrow> element list \<Rightarrow> mounted list \<times> mounted list" where
  "reconcileChildren olds [] = ([], [])"
| "reconcileChildren [] els = (map mountChild els, [])"
| "reconcileChildren (c # olds) (el # els) =
    (if inst_key c = el_key el then
       (let (cs, left) = reconcileChildren olds els in (updateChild c el # cs, left))
     else (updateFromMap (mapRemainingChildren (c # olds)) (el # els), shadowed (c # olds)))"

text \<open>
  The tree on the page: the children React keeps track of, in their order, and the nodes
  left behind (their place among the siblings is not recorded).
\<close>

record tree =
  tree_children :: "mounted list"
  tree_stale :: "mounted list"

definition emptyTree :: tree where
  "emptyTree = \<lparr>tree_children = [], tree_stale = []\<rparr>"

definition reconcile :: "tree \<Rightarrow> element list \<Rightarrow> tree" where
  "reconcile tr els =
    (let (cs, left) = reconcileChildren (tree_children tr) els in
     \<lparr>tree_children = cs, tree_stale = tree_stale tr @ left\<rparr>)"

text \<open>A click on the header of the \<open>i\<close>-th child (line 57) flips its \<open>isOpen\<close>; a child
  that renders \<open>null\<close> has no header.\<close>

definition clickFolder :: "nat \<Rightarrow> tree \<Rightarrow> tree" where
  "clickFolder i tr =
    (if i < length (tree_children tr) \<and> renderChild (tree_children tr ! i) \<noteq> None then
       tr\<lparr>tree_children :=
         (tree_children tr)[i := (tree_children tr ! i)\<lparr>inst_isOpen :=
           \<not> inst_isOpen (tree_children tr ! i)\<rparr>]\<rparr>
     else tr)"

text \<open>
  What happens to the tree while the page lives: \<open>App\<close> renders with a search term and a
  selected path and passes \<open>filteredData\<close> to \<open>FileTree\<close> (lines 259-267), or the user
  clicks a folder header. The first render mounts the tree.
\<close>

datatype tree_update = Render jsstring "jsstring option" | ClickFolder nat

fun treeStep :: "(jsstring \<Rightarrow> jsstring) \<Rightarrow> catalog \<Rightarrow> tree \<Rightarrow> tree_update \<Rightarrow> tree" where
  "treeStep toLowerCase rawData tr (Render srch selectedPath) =
     reconcile tr (FileTree (filteredData toLowerCase rawData srch) selectedPath)"
| "treeStep toLowerCase rawData tr (ClickFolder i) = clickFolder i tr"

definition treeAfter :: "(jsstring \<Rightarrow> jsstring) \<Rightarrow> catalog \<Rightarrow> tree_update list \<Rightarrow> tree" where
  "treeAfter toLowerCase rawData us = foldl (treeStep toLowerCase rawData) emptyTree us"

text \<open>The nodes shown for the children, in order, and the nodes left behind.\<close>

definition shown :: "tree \<Rightarrow> group_node list" where
  "shown tr = List.map_filter renderChild (tree_children tr)"


text \<open>The label of a group: \<open>displayName\<close> of line 50.\<close>

definition label :: "folder_group \<Rightarrow> jsstring" where
  "label g = (if folder g = str ''.'' then str ''Root'' else folder g)"

section \<open>Theme and accent\<close>

datatype js_error = TypeError

datatype style_table = dracula | solarizedlight | vscDarkPlus | ghcolors

text \<open>Lines 150-151: \<open>Array.prototype.find\<close> gives the first match or \<open>undefined\<close>.\<close>

definition activeThemeObj :: "app_state \<Rightarrow> theme option" where
  "activeThemeObj s = find (\<lambda>t. theme_id t = currentTheme s) THEMES"

definition activeAccentObj :: "app_state \<Rightarrow> accent option" where
  "activeAccentObj s = find (\<lambda>a. accent_id a = currentAccent s) ACCENTS"

text \<open>\<open>getSyntaxStyle\<close> (lines 154-158); reading \<open>isDark\<close> of \<open>undefined\<close> throws.\<close>

definition getSyntaxStyle :: "app_state \<Rightarrow> js_error + style_table" where
  "getSyntaxStyle s =
    (if currentTheme s = ''dracula'' then Inr dracula
     else if currentTheme s = ''solarized'' then Inr solarizedlight
     else
       (case activeThemeObj s of
          None \<Rightarrow> Inl TypeError
        | Some t \<Rightarrow> Inr (if isDark t then vscDarkPlus else ghcolors)))"

text \<open>
  The two dereferences of the header: the accent swatch reads \<open>activeAccentObj.color\<close>
  (line 192), then the theme button reads \<open>activeThemeObj.name\<close> (line 217).
\<close>

record header_view =
  swatch :: string
  themeLabel :: string

definition header :: "app_state \<Rightarrow> js_error + header_view" where
  "header s =
    (case activeAccentObj s of
       None \<Rightarrow> Inl TypeError
     | Some a \<Rightarrow>
         (case activeThemeObj s of
            None \<Rightarrow> Inl TypeError
          | Some t \<Rightarrow> Inr \<lparr>swatch = color a, themeLabel = theme_name t\<rparr>))"

text \<open>
  The document-level presentation context the effect writes: the \<open>data-theme\<close>
  attribute, the class list (an ordered set of tokens) and the inline style properties of
  the root element.
\<close>

record document =
  data_theme :: "string option"
  classList :: "string list"
  style_props :: "string \<rightharpoonup> string"

definition classList_add :: "string \<Rightarrow> string list \<Rightarrow> string list" where
  "classList_add tok cl = (if tok \<in> set cl then cl else cl @ [tok])"

definition classList_remove :: "string \<Rightarrow> string list \<Rightarrow> string list" where
  "classList_remove tok cl = filter (\<lambda>x. x \<noteq> tok) cl"

text \<open>The effect of lines 102-119; \<open>themeObj?.isDark\<close> is falsy when no theme is found.\<close>

definition applyThemeAccent :: "app_state \<Rightarrow> document \<Rightarrow> document" where
  "applyThemeAccent s doc =
    (let d1 = doc\<lparr>data_theme := Some (currentTheme s)\<rparr>;
         themeObj = find (\<lambda>t. theme_id t = currentTheme s) THEMES;
         d2 = (if (case themeObj of None \<Rightarrow> False | Some t \<Rightarrow> isDark t)
               then d1\<lparr>classList := classList_add ''dark'' (classList d1)\<rparr>
               else d1\<lparr>classList := classList_remove ''dark'' (classList d1)\<rparr>);
         accentObj = find (\<lambda>a. accent_id a = currentAccent s) ACCENTS
     in (case accentObj of
           None \<Rightarrow> d2
         | Some a \<Rightarrow>
             d2\<lparr>style_props := (style_props d2)(''--accent'' \<mapsto> color a,
               ''--accent-dim'' \<mapsto> dim a)\<rparr>))"

section \<open>Content viewer\<close>

text \<open>The props of the \<open>SyntaxHighlighter\<close> element of the code view (lines 377-384).\<close>

record highlighter =
  language :: string
  style :: style_table
  showLineNumbers :: bool
  children :: jsstring

text \<open>
  The main panel (lines 287-395). The explanation view hands the markdown text to
  \<open>ReactMarkdown\<close>, whose rendering is outside these sources.
\<close>

datatype main_view = Placeholder | ExplanationView jsstring | CodeView highlighter

definition mainContent :: "app_state \<Rightarrow> js_error + main_view" where
  "mainContent s =
    (case selectedFile s of
       None \<Rightarrow> Inr Placeholder
     | Some file \<Rightarrow>
         if viewMode s = ''explanation'' then Inr (ExplanationView (explanation file))
         else
           (case getSyntaxStyle s of
              Inl e \<Rightarrow> Inl e
            | Inr st \<Rightarrow>
                Inr (CodeView \<lparr>language = ''csharp'', style = st, showLineNumbers = True,
                  children = code file\<rparr>)))"

section \<open>The user interface as a transition system\<close>

text \<open>
  One event per handler the rendered page offers. A picker button carries the table entry
  it was generated from (lines 197 and 221); a file row carries its record (line 69).
\<close>

datatype event =
    SelectFile file_record
  | ClickExplanationTab
  | ClickCodeTab
  | PickTheme theme
  | PickAccent accent
  | TypeSearch jsstring
  | HandleMouseDown
  | MouseMove int
  | MouseUp
  | MenuButton
  | CloseMenu

text \<open>
  Which events the page offers in a state: a file row exists only for files of the
  catalog (which of them have a row depends on the search term and on the tree on the
  page; taking all of them only adds behaviours), the tabs exist once a file is selected,
  the picker buttons exist for the entries of the two tables.
\<close>

fun enabled :: "catalog \<Rightarrow> app_state \<Rightarrow> event \<Rightarrow> bool" where
  "enabled rawData s (SelectFile f) = (f \<in> set (concat (map files rawData)))"
| "enabled rawData s ClickExplanationTab = (selectedFile s \<noteq> None)"
| "enabled rawData s ClickCodeTab = (selectedFile s \<noteq> None)"
| "enabled rawData s (PickTheme t) = (t \<in> set THEMES)"
| "enabled rawData s (PickAccent a) = (a \<in> set ACCENTS)"
| "enabled rawData s _ = True"

fun step :: "app_state \<Rightarrow> event \<Rightarrow> app_state" where
  "step s (SelectFile f) = onSelect f s"
| "step s ClickExplanationTab = clickExplanationTab s"
| "step s ClickCodeTab = clickCodeTab s"
| "step s (PickTheme t) = setCurrentTheme (theme_id t) s"
| "step s (PickAccent a) = setCurrentAccent (accent_id a) s"
| "step s (TypeSearch v) = setSearchTerm v s"
| "step s HandleMouseDown = startResizing s"
| "step s (MouseMove x) = resize x s"
| "step s MouseUp = stopResizing s"
| "step s MenuButton = toggleMobileMenu s"
| "step s CloseMenu = closeMobileMenu s"

text \<open>Running a sequence of events; \<open>None\<close> when the page does not offer one of them.\<close>

fun run :: "catalog \<Rightarrow> app_state \<Rightarrow> event list \<Rightarrow> app_state option" where
  "run rawData s [] = Some s"
| "run rawData s (e # es) = (if enabled rawData s e then run rawData (step s e) es else None)"

section \<open>Sample inputs\<close>

text \<open>Two small catalogs, used for the closed instances of the theorems below.\<close>

definition sampleCatalog :: catalog where
  "sampleCatalog =
    [\<lparr>folder = str ''Net'', files =
        [\<lparr>path = str ''Net/Socket.cs'', name = str ''Socket.cs'',
          explanation = str ''# Socket'', code = str ''class Socket{}''\<rparr>]\<rparr>,
     \<lparr>folder = str ''Old'', files = []\<rparr>,
     \<lparr>folder = str ''.'', files =
        [\<lparr>path = str ''Main.cs'', name = str ''Main.cs'', explanation = str ''# Main'',
          code = str ''class Main{}''\<rparr>,
         \<lparr>path = str ''tool.py'', name = str ''tool.py'', explanation = str ''# Tool'',
          code = str ''print(1)''\<rparr>]\<rparr>]"



text \<open>\<open>sampleCatalog\<close> as objects on a heap; the catalog array is the cell 9.\<close>

definition sampleHeap :: heap where
  "sampleHeap =
    [FileCell \<lparr>path = str ''Net/Socket.cs'', name = str ''Socket.cs'',
       explanation = str ''# Socket'', code = str ''class Socket{}''\<rparr>,
     ArrayCell [0],
     GroupCell (str ''Net'') 1,
     ArrayCell [],
     GroupCell (str ''Old'') 3,
     FileCell \<lparr>path = str ''Main.cs'', name = str ''Main.cs'', explanation = str ''# Main'',
       code = str ''class Main{}''\<rparr>,
     FileCell \<lparr>path = str ''tool.py'', name = str ''tool.py'', explanation = str ''# Tool'',
       code = str ''print(1)''\<rparr>,
     ArrayCell [5, 6],
     GroupCell (str ''.'') 7,
     ArrayCell [2, 4, 8]]"

section \<open>Search filter: correctness\<close>

lemma includesStr_sublist: "includesStr s t = sublist t s"
  by (induction s) (simp_all add: sublist_Cons_right)

lemma sublist_map_iff:
  "sublist (map f t) (map f nm) \<longleftrightarrow> (\<exists>u. sublist u nm \<and> map f u = map f t)"
proof
  assume "sublist (map f t) (map f nm)"
  then obtain ps ss where "map f nm = ps @ map f t @ ss"
    unfolding sublist_def by blast
  then have "\<exists>p r. nm = p @ r \<and> ps = map f p \<and> map f t @ ss = map f r"
    by (simp only: map_eq_append_conv)
  then obtain p r where nm: "nm = p @ r" and r: "map f r = map f t @ ss"
    by metis
  from r have "\<exists>u q. r = u @ q \<and> map f t = map f u \<and> ss = map f q"
    by (simp only: map_eq_append_conv)
  then obtain u q where rq: "r = u @ q" and u: "map f t = map f u"
    by metis
  from nm rq have "nm = p @ u @ q" by simp
  then have "sublist u nm" unfolding sublist_def by blast
  with u show "\<exists>u. sublist u nm \<and> map f u = map f t" by metis
next
  assume "\<exists>u. sublist u nm \<and> map f u = map f t"
  then obtain u where su: "sublist u nm" and u: "map f u = map f t" by blast
  from su obtain p q where "nm = p @ u @ q" unfolding sublist_def by blast
  then have "map f nm = map f p @ map f u @ map f q" by simp
  then have "sublist (map f u) (map f nm)" unfolding sublist_def by blast
  with u show "sublist (map f t) (map f nm)" by simp
qed

text \<open>Where lowering works unit by unit, the code's match is the specification's.\<close>

lemma unitwise_match:
  assumes parts: "\<forall>u \<in> set (sublists nm). lower u = map lu u"
    and t: "lower t = map lu t"
  shows "sublist (lower t) (lower nm) \<longleftrightarrow> contains_ignoring_case lower nm t"
proof -
  have nm: "lower nm = map lu nm" using parts by simp
  have "sublist (lower t) (lower nm) \<longleftrightarrow> (\<exists>u. sublist u nm \<and> map lu u = map lu t)"
    by (simp only: nm t sublist_map_iff)
  also have "\<dots> \<longleftrightarrow> (\<exists>u. sublist u nm \<and> lower u = lower t)"
    using parts t by auto
  finally show ?thesis by (simp add: contains_ignoring_case_def Bex_def)
qed

lemma filteredData_groups:
  "filteredData lower rawData t =
    map (\<lambda>g. g\<lparr>files :=
          filter (\<lambda>f. t = [] \<or> sublist (lower t) (lower (name f))) (files g)\<rparr>)
      (filter (\<lambda>g. t = [] \<or> (\<exists>f\<in>set (files g). sublist (lower t) (lower (name f))))
        rawData)"
proof (cases "t = []")
  case True
  then show ?thesis
    by (simp add: filteredData_def map_idI)
next
  case False
  then show ?thesis
    by (simp add: filteredData_def Let_def includesStr_sublist filter_map comp_def filter_empty_conv)
qed

lemma filteredData_files:
  "concat (map files (filteredData lower rawData t)) =
     filter (\<lambda>f. t = [] \<or> sublist (lower t) (lower (name f))) (concat (map files rawData))"
proof (cases "t = []")
  case True
  then show ?thesis by (simp add: filteredData_def)
next
  case False
  have "concat (map files (filter (\<lambda>g. files g \<noteq> []) gs)) = concat (map files gs)" for gs :: catalog
    by (induction gs) simp_all
  then show ?thesis using False
    by (simp add: filteredData_def Let_def includesStr_sublist filter_concat comp_def)
qed

lemma filteredData_files_ci:
  assumes "\<forall>f \<in> set (concat (map files rawData)). \<forall>u \<in> set (sublists (name f)). lower u = map lu u"
    and t: "lower t = map lu t"
  shows "concat (map files (filteredData lower rawData t)) =
     filter (\<lambda>f. contains_ignoring_case lower (name f) t) (concat (map files rawData))"
proof -
  have "(t = [] \<or> sublist (lower t) (lower (name f))) \<longleftrightarrow> contains_ignoring_case lower (name f) t"
    if "f \<in> set (concat (map files rawData))" for f
  proof (cases "t = []")
    case True
    then show ?thesis by (auto simp: contains_ignoring_case_def)
  next
    case False
    with unitwise_match [of "name f" lower lu t] assms that show ?thesis by blast
  qed
  then show ?thesis
    unfolding filteredData_files by (intro filter_cong refl)
qed

lemma readFile_append: "readFile h a = Some f \<Longrightarrow> readFile (h @ e) a = Some f"
  by (auto simp: readFile_def nth_append split: if_splits)

lemma readArray_append: "readArray h a = Some xs \<Longrightarrow> readArray (h @ e) a = Some xs"
  by (auto simp: readArray_def nth_append split: if_splits)

lemma readGroup_append: "readGroup h a = Some p \<Longrightarrow> readGroup (h @ e) a = Some p"
  by (auto simp: readGroup_def nth_append split: if_splits)

lemma readFiles_append: "readFiles h as = Some fs \<Longrightarrow> readFiles (h @ e) as = Some fs"
  by (induction as arbitrary: fs) (auto simp: readFile_append split: option.splits)

lemma readFolderGroup_append:
  "readFolderGroup h g = Some v \<Longrightarrow> readFolderGroup (h @ e) g = Some v"
  by (auto simp: readFolderGroup_def readGroup_append readArray_append readFiles_append
      split: option.splits)

lemma readGroups_append: "readGroups h gs = Some vs \<Longrightarrow> readGroups (h @ e) gs = Some vs"
  by (induction gs arbitrary: vs) (auto simp: readFolderGroup_append split: option.splits)

lemma readFiles_length: "readFiles h as = Some fs \<Longrightarrow> length fs = length as"
  by (induction as arbitrary: fs) (auto split: option.splits)

lemma filterFiles_reads:
  "readFiles h as = Some fs \<Longrightarrow>
   \<exists>ks. filterFiles lower h lt as = Some ks \<and>
     readFiles h ks = Some (filter (\<lambda>f. includesStr (lower (name f)) lt) fs)"
  by (induction as arbitrary: fs) (auto split: option.splits)

lemma restricted_group:
  assumes g: "readGroup h g = Some (fd, fa)" and fs: "readArray h fa = Some as"
    and vs: "readFiles h as = Some fs" and ks: "readFiles h ks = Some fs'"
  shows "readFolderGroup (h @ [ArrayCell ks, GroupCell fd (length h)]) (Suc (length h)) =
    Some \<lparr>folder = fd, files = fs'\<rparr>"
proof -
  let ?h2 = "h @ [ArrayCell ks, GroupCell fd (length h)]"
  have 1: "readGroup ?h2 (Suc (length h)) = Some (fd, length h)"
    by (simp add: readGroup_def nth_append)
  have 2: "readArray ?h2 (length h) = Some ks"
    by (simp add: readArray_def nth_append)
  from readFiles_append [OF ks] have 3: "readFiles ?h2 ks = Some fs'" .
  from 1 2 3 show ?thesis by (simp add: readFolderGroup_def)
qed

lemma mapGroups_reads:
  "readGroups h gs = Some vs \<Longrightarrow>
   \<exists>e gas. mapGroups lower h lt gs = Some (h @ e, gas) \<and>
     readGroups (h @ e) gas =
       Some (map (\<lambda>g. g\<lparr>files := filter (\<lambda>f. includesStr (lower (name f)) lt) (files g)\<rparr>) vs)"
proof (induction gs arbitrary: h vs)
  case Nil
  then show ?case by auto
next
  case (Cons g gs)
  from Cons.prems obtain v vs' where v: "readFolderGroup h g = Some v"
    and vs': "readGroups h gs = Some vs'" and vs: "vs = v # vs'"
    by (auto split: option.splits)
  from v obtain fd fa as fs where g: "readGroup h g = Some (fd, fa)"
    and fa: "readArray h fa = Some as" and fs: "readFiles h as = Some fs"
    and vv: "v = \<lparr>folder = fd, files = fs\<rparr>"
    by (auto simp: readFolderGroup_def split: option.splits)
  let ?P = "\<lambda>f. includesStr (lower (name f)) lt"
  from filterFiles_reads [OF fs, of lower lt] obtain ks
    where ff: "filterFiles lower h lt as = Some ks" and ks: "readFiles h ks = Some (filter ?P fs)"
    by blast
  let ?h2 = "h @ [ArrayCell ks, GroupCell fd (length h)]"
  from restricted_group [OF g fa fs ks]
  have new: "readFolderGroup ?h2 (Suc (length h)) = Some \<lparr>folder = fd, files = filter ?P fs\<rparr>" .
  from readGroups_append [OF vs'] have "readGroups ?h2 gs = Some vs'" .
  from Cons.IH [OF this] obtain e gas where mg: "mapGroups lower ?h2 lt gs = Some (?h2 @ e, gas)"
    and rg: "readGroups (?h2 @ e) gas = Some (map (\<lambda>g. g\<lparr>files := filter ?P (files g)\<rparr>) vs')"
    by blast
  have step: "mapGroups lower h lt (g # gs) = Some (h @ ([ArrayCell ks, GroupCell fd (length h)] @ e),
      Suc (length h) # gas)"
    using g fa ff mg by (simp add: alloc_def)
  from readFolderGroup_append [OF new]
  have "readFolderGroup (?h2 @ e) (Suc (length h)) = Some \<lparr>folder = fd, files = filter ?P fs\<rparr>" .
  with rg have "readGroups (h @ ([ArrayCell ks, GroupCell fd (length h)] @ e)) (Suc (length h) # gas) =
      Some (map (\<lambda>g. g\<lparr>files := filter ?P (files g)\<rparr>) vs)"
    by (simp add: vs vv)
  with step show ?case by blast
qed

lemma keepNonEmpty_reads:
  "readGroups h gs = Some vs \<Longrightarrow>
   \<exists>ks. keepNonEmpty h gs = Some ks \<and>
     readGroups h ks = Some (filter (\<lambda>g. length (files g) > 0) vs)"
proof (induction gs arbitrary: vs)
  case Nil
  then show ?case by auto
next
  case (Cons g gs)
  from Cons.prems obtain v vs' where v: "readFolderGroup h g = Some v"
    and vs': "readGroups h gs = Some vs'" and vs: "vs = v # vs'"
    by (auto split: option.splits)
  from v obtain fd fa as fs where g: "readGroup h g = Some (fd, fa)"
    and fa: "readArray h fa = Some as" and fs: "readFiles h as = Some fs"
    and vv: "v = \<lparr>folder = fd, files = fs\<rparr>"
    by (auto simp: readFolderGroup_def split: option.splits)
  from Cons.IH [OF vs'] obtain ks where k: "keepNonEmpty h gs = Some ks"
    and r: "readGroups h ks = Some (filter (\<lambda>g. length (files g) > 0) vs')" by blast
  from readFiles_length [OF fs] have len: "length fs = length as" .
  show ?case using g fa k r v len by (auto simp: vs vv)
qed

lemma filteredDataHeap_refines:
  assumes cat: "readCatalog h rawData = Some cat"
  shows "\<exists>h' a. filteredDataHeap lower h rawData t = Some (h', a) \<and>
     take (length h) h' = h \<and>
     readCatalog h' rawData = Some cat \<and>
     readCatalog h' a = Some (filteredData lower cat t)"
proof (cases "t = []")
  case True
  with cat show ?thesis by (simp add: filteredDataHeap_def filteredData_def)
next
  case False
  let ?lt = "lower t"
  let ?P = "\<lambda>f. includesStr (lower (name f)) ?lt"
  from cat obtain gs where ra: "readArray h rawData = Some gs" and rg: "readGroups h gs = Some cat"
    by (auto simp: readCatalog_def split: option.splits)
  from mapGroups_reads [OF rg, of lower ?lt] obtain e gas
    where mg: "mapGroups lower h ?lt gs = Some (h @ e, gas)"
      and rm: "readGroups (h @ e) gas = Some (map (\<lambda>g. g\<lparr>files := filter ?P (files g)\<rparr>) cat)"
    by blast
  let ?h2 = "(h @ e) @ [ArrayCell gas]"
  from readGroups_append [OF rm]
  have rm2: "readGroups ?h2 gas = Some (map (\<lambda>g. g\<lparr>files := filter ?P (files g)\<rparr>) cat)" .
  from keepNonEmpty_reads [OF rm2] obtain ks where k: "keepNonEmpty ?h2 gas = Some ks"
    and rk: "readGroups ?h2 ks =
      Some (filter (\<lambda>g. length (files g) > 0) (map (\<lambda>g. g\<lparr>files := filter ?P (files g)\<rparr>) cat))"
    by blast
  let ?h3 = "?h2 @ [ArrayCell ks]"
  have run: "filteredDataHeap lower h rawData t = Some (?h3, length ?h2)"
    using False ra mg k by (simp add: filteredDataHeap_def alloc_def Let_def)
  have frame: "take (length h) ?h3 = h" by simp
  have "readCatalog (h @ (e @ [ArrayCell gas] @ [ArrayCell ks])) rawData = Some cat"
    using readArray_append [OF ra] readGroups_append [OF rg]
    by (simp add: readCatalog_def)
  then have old: "readCatalog ?h3 rawData = Some cat" by simp
  have "readArray ?h3 (length ?h2) = Some ks"
    by (simp add: readArray_def nth_append)
  moreover from readGroups_append [OF rk]
  have "readGroups ?h3 ks =
      Some (filter (\<lambda>g. length (files g) > 0) (map (\<lambda>g. g\<lparr>files := filter ?P (files g)\<rparr>) cat))" .
  ultimately have new: "readCatalog ?h3 (length ?h2) = Some (filteredData lower cat t)"
    using False by (simp add: readCatalog_def filteredData_def Let_def)
  from run frame old new show ?thesis by blast
qed

lemma toLowerCaseBasic_unitwise: "0x130 \<notin> set u \<Longrightarrow> toLowerCaseBasic u = map lowerUnit u"
  by (induction u) (simp_all add: toLowerCaseBasic_def lowerUnits_def)

text \<open>
  Claim C1, as amended. For every search term and every lowering function, the files of
  the filtered catalog are exactly the files of the catalog whose lower-cased display name
  contains the lower-cased term (all files for the empty term), in catalog order. Where
  lowering works unit by unit on the names and on the term, these are the files whose
  display name contains the term up to letter case. The filtered catalog consists of the
  catalog's groups, each with its folder name kept and its files restricted to the
  matching ones, without the groups left with no file; with a non-empty term no group of
  the result is empty. On the heap the computation only adds cells: every cell that was
  there is unchanged, the catalog reference still stands for the same catalog, and the
  returned reference stands for the filtered one.
\<close>

theorem filteredData_exact:
  "concat (map files (filteredData lower rawData t)) =
     filter (\<lambda>f. t = [] \<or> sublist (lower t) (lower (name f))) (concat (map files rawData)) \<and>
   ((\<forall>f \<in> set (concat (map files rawData)). \<forall>u \<in> set (sublists (name f)). lower u = map lu u) \<and>
    lower t = map lu t \<longrightarrow>
      concat (map files (filteredData lower rawData t)) =
        filter (\<lambda>f. contains_ignoring_case lower (name f) t) (concat (map files rawData))) \<and>
   filteredData lower rawData t =
     map (\<lambda>g. g\<lparr>files :=
           filter (\<lambda>f. t = [] \<or> sublist (lower t) (lower (name f))) (files g)\<rparr>)
       (filter (\<lambda>g. t = [] \<or> (\<exists>f\<in>set (files g). sublist (lower t) (lower (name f))))
         rawData) \<and>
   (t \<noteq> [] \<longrightarrow> (\<forall>g \<in> set (filteredData lower rawData t). files g \<noteq> [])) \<and>
   (readCatalog h a = Some rawData \<longrightarrow>
      (\<exists>h' a'. filteredDataHeap lower h a t = Some (h', a') \<and>
         take (length h) h' = h \<and>
         readCatalog h' a = Some rawData \<and>
         readCatalog h' a' = Some (filteredData lower rawData t)))"
proof (intro conjI impI)
  show "concat (map files (filteredData lower rawData t)) =
     filter (\<lambda>f. t = [] \<or> sublist (lower t) (lower (name f))) (concat (map files rawData))"
    by (rule filteredData_files)
  show "concat (map files (filteredData lower rawData t)) =
        filter (\<lambda>f. contains_ignoring_case lower (name f) t) (concat (map files rawData))"
    if "(\<forall>f \<in> set (concat (map files rawData)). \<forall>u \<in> set (sublists (name f)). lower u = map lu u) \<and>
      lower t = map lu t"
    using that filteredData_files_ci [of rawData lower lu t] by blast
  show "filteredData lower rawData t =
     map (\<lambda>g. g\<lparr>files :=
           filter (\<lambda>f. t = [] \<or> sublist (lower t) (lower (name f))) (files g)\<rparr>)
       (filter (\<lambda>g. t = [] \<or> (\<exists>f\<in>set (files g). sublist (lower t) (lower (name f))))
         rawData)"
    by (rule filteredData_groups)
  show "\<forall>g \<in> set (filteredData lower rawData t). files g \<noteq> []" if "t \<noteq> []"
    using that by (simp add: filteredData_def Let_def)
  show "\<exists>h' a'. filteredDataHeap lower h a t = Some (h', a') \<and>
         take (length h) h' = h \<and>
         readCatalog h' a = Some rawData \<and>
         readCatalog h' a' = Some (filteredData lower rawData t)"
    if "readCatalog h a = Some rawData"
    using that by (rule filteredDataHeap_refines)
qed

theorem filteredData_exact_witness:
  "str ''MAIN'' \<noteq> [] \<and>
   toLowerCaseBasic (str ''MAIN'') = map lowerUnit (str ''MAIN'') \<and>
   concat (map files (filteredData toLowerCaseBasic sampleCatalog (str ''MAIN''))) =
     [\<lparr>path = str ''Main.cs'', name = str ''Main.cs'', explanation = str ''# Main'',
       code = str ''class Main{}''\<rparr>] \<and>
   list_all (\<lambda>g. files g \<noteq> []) (filteredData toLowerCaseBasic sampleCatalog (str ''MAIN'')) \<and>
   readCatalog sampleHeap 9 = Some sampleCatalog \<and>
   (\<exists>h' a'. filteredDataHeap toLowerCaseBasic sampleHeap 9 (str ''MAIN'') = Some (h', a') \<and>
      take (length sampleHeap) h' = sampleHeap \<and>
      readCatalog h' 9 = Some sampleCatalog \<and>
      readCatalog h' a' =
        Some [\<lparr>folder = str ''.'', files =
          [\<lparr>path = str ''Main.cs'', name = str ''Main.cs'', explanation = str ''# Main'',
            code = str ''class Main{}''\<rparr>]\<rparr>])"
proof -
  note th = filteredData_exact [of toLowerCaseBasic sampleCatalog "str ''MAIN''" lowerUnit sampleHeap 9]
  have n: "str ''MAIN'' \<noteq> []" by (simp add: str_def)
  have lt: "toLowerCaseBasic (str ''MAIN'') = map lowerUnit (str ''MAIN'')" by code_simp
  have "list_all (\<lambda>f. 0x130 \<notin> set (name f)) (concat (map files sampleCatalog))" by code_simp
  then have plain: "\<forall>f \<in> set (concat (map files sampleCatalog)). 0x130 \<notin> set (name f)"
    by (simp only: list_all_iff)
  have unit: "\<forall>f \<in> set (concat (map files sampleCatalog)).
      \<forall>u \<in> set (sublists (name f)). toLowerCaseBasic u = map lowerUnit u"
  proof (intro ballI)
    fix f u
    assume f: "f \<in> set (concat (map files sampleCatalog))" and u: "u \<in> set (sublists (name f))"
    from u have "sublist u (name f)" by simp
    then have "set u \<subseteq> set (name f)" by (rule set_mono_sublist)
    with plain f have "0x130 \<notin> set u" by blast
    then show "toLowerCaseBasic u = map lowerUnit u" by (rule toLowerCaseBasic_unitwise)
  qed
  from th [THEN conjunct2, THEN conjunct1] unit lt
  have ci: "concat (map files (filteredData toLowerCaseBasic sampleCatalog (str ''MAIN''))) =
      filter (\<lambda>f. contains_ignoring_case toLowerCaseBasic (name f) (str ''MAIN''))
        (concat (map files sampleCatalog))" by blast
  have e: "filter (\<lambda>f. contains_ignoring_case toLowerCaseBasic (name f) (str ''MAIN''))
      (concat (map files sampleCatalog)) =
     [\<lparr>path = str ''Main.cs'', name = str ''Main.cs'', explanation = str ''# Main'',
       code = str ''class Main{}''\<rparr>]"
    by code_simp
  from ci e have c: "concat (map files (filteredData toLowerCaseBasic sampleCatalog (str ''MAIN''))) =
     [\<lparr>path = str ''Main.cs'', name = str ''Main.cs'', explanation = str ''# Main'',
       code = str ''class Main{}''\<rparr>]" by (rule trans)
  from th [THEN conjunct2, THEN conjunct2, THEN conjunct2, THEN conjunct1] n
  have "\<forall>g \<in> set (filteredData toLowerCaseBasic sampleCatalog (str ''MAIN'')). files g \<noteq> []"
    by (rule mp)
  then have l: "list_all (\<lambda>g. files g \<noteq> []) (filteredData toLowerCaseBasic sampleCatalog (str ''MAIN''))"
    by (simp only: list_all_iff)
  have r: "readCatalog sampleHeap 9 = Some sampleCatalog" by code_simp
  have v: "filteredData toLowerCaseBasic sampleCatalog (str ''MAIN'') =
      [\<lparr>folder = str ''.'', files =
          [\<lparr>path = str ''Main.cs'', name = str ''Main.cs'', explanation = str ''# Main'',
            code = str ''class Main{}''\<rparr>]\<rparr>]"
    by code_simp
  from th [THEN conjunct2, THEN conjunct2, THEN conjunct2, THEN conjunct2] r
  obtain h' a' where "filteredDataHeap toLowerCaseBasic sampleHeap 9 (str ''MAIN'') = Some (h', a')"
    and "take (length sampleHeap) h' = sampleHeap"
    and "readCatalog h' 9 = Some sampleCatalog"
    and "readCatalog h' a' = Some (filteredData toLowerCaseBasic sampleCatalog (str ''MAIN''))"
    by blast
  with v have hp: "\<exists>h' a'. filteredDataHeap toLowerCaseBasic sampleHeap 9 (str ''MAIN'') = Some (h', a') \<and>
      take (length sampleHeap) h' = sampleHeap \<and>
      readCatalog h' 9 = Some sampleCatalog \<and>
      readCatalog h' a' =
        Some [\<lparr>folder = str ''.'', files =
          [\<lparr>path = str ''Main.cs'', name = str ''Main.cs'', explanation = str ''# Main'',
            code = str ''class Main{}''\<rparr>]\<rparr>]"
    by auto
  from n lt c l r hp show ?thesis by blast
qed

text \<open>
  The claim C1 as stated fails: \<open>U+0130\<close> lowers to \<open>U+0069 U+0307\<close>, so the lower-cased
  name of the file below contains the term \<open>i\<close> and the file is kept, while no part of
  the name equals \<open>i\<close> up to letter case.
\<close>

theorem filteredData_unicode_counterexample:
  "toLowerCaseBasic (0x130 # str ''stanbul.cs'') = 0x69 # 0x307 # str ''stanbul.cs'' \<and>
   filteredData toLowerCaseBasic
     [\<lparr>folder = str ''.'', files =
        [\<lparr>path = 0x130 # str ''stanbul.cs'', name = 0x130 # str ''stanbul.cs'',
          explanation = [], code = []\<rparr>]\<rparr>] (str ''i'') =
     [\<lparr>folder = str ''.'', files =
        [\<lparr>path = 0x130 # str ''stanbul.cs'', name = 0x130 # str ''stanbul.cs'',
          explanation = [], code = []\<rparr>]\<rparr>] \<and>
   \<not> contains_ignoring_case toLowerCaseBasic (0x130 # str ''stanbul.cs'') (str ''i'')"
  by code_simp

section \<open>Selection and view mode\<close>

text \<open>
  Claim C3. Selecting a file sets the view mode to \<open>explanation\<close>, whatever the view
  mode was before; the selected file becomes the clicked record.
\<close>

theorem onSelect_resets_viewMode:
  "viewMode (onSelect file s) = ''explanation'' \<and>
   selectedFile (onSelect file s) = Some file \<and>
   viewMode (step s (SelectFile file)) = ''explanation''"
  by (simp add: onSelect_def)

text \<open>
  Claim C6. Either tab button sets \<open>viewMode\<close> to its own mode and leaves
  \<open>selectedFile\<close> and every other state cell as it was.
\<close>

theorem tab_click_frame:
  "viewMode (clickExplanationTab s) = ''explanation'' \<and>
   viewMode (clickCodeTab s) = ''code'' \<and>
   selectedFile (clickExplanationTab s) = selectedFile s \<and>
   selectedFile (clickCodeTab s) = selectedFile s \<and>
   currentTheme (clickExplanationTab s) = currentTheme s \<and>
   currentTheme (clickCodeTab s) = currentTheme s \<and>
   currentAccent (clickExplanationTab s) = currentAccent s \<and>
   currentAccent (clickCodeTab s) = currentAccent s \<and>
   searchTerm (clickExplanationTab s) = searchTerm s \<and>
   searchTerm (clickCodeTab s) = searchTerm s \<and>
   sidebarWidth (clickExplanationTab s) = sidebarWidth s \<and>
   sidebarWidth (clickCodeTab s) = sidebarWidth s \<and>
   isResizing (clickExplanationTab s) = isResizing s \<and>
   isResizing (clickCodeTab s) = isResizing s \<and>
   mobileMenuOpen (clickExplanationTab s) = mobileMenuOpen s \<and>
   mobileMenuOpen (clickCodeTab s) = mobileMenuOpen s \<and>
   step s ClickExplanationTab = s\<lparr>viewMode := ''explanation''\<rparr> \<and>
   step s ClickCodeTab = s\<lparr>viewMode := ''code''\<rparr>"
  by (simp add: clickExplanationTab_def clickCodeTab_def setViewMode_def)

section \<open>Sidebar width\<close>

lemmas handler_defs = onSelect_def clickExplanationTab_def clickCodeTab_def setViewMode_def
  startResizing_def stopResizing_def resize_def setSearchTerm_def setCurrentAccent_def
  setCurrentTheme_def toggleMobileMenu_def closeMobileMenu_def

lemma step_width:
  "200 < sidebarWidth s \<and> sidebarWidth s < 600 \<Longrightarrow>
   200 < sidebarWidth (step s e) \<and> sidebarWidth (step s e) < 600"
  by (cases e) (simp_all add: handler_defs Let_def)

lemma run_width:
  "run rawData s evs = Some s' \<Longrightarrow> 200 < sidebarWidth s \<and> sidebarWidth s < 600 \<Longrightarrow>
   200 < sidebarWidth s' \<and> sidebarWidth s' < 600"
proof (induction evs arbitrary: s)
  case Nil
  then show ?case by simp
next
  case (Cons e evs)
  from Cons.prems(1) have r: "run rawData (step s e) evs = Some s'"
    by (simp split: if_splits)
  from Cons.IH [OF r step_width [OF Cons.prems(2)]] show ?case .
qed

text \<open>A pointer position outside the open interval leaves the width where it was.\<close>

lemma resize_out_of_range: "x \<le> 200 \<or> 600 \<le> x \<Longrightarrow> resize x s = s"
  by (auto simp: resize_def)

text \<open>
  Claim C2. After any sequence of events from the initial state, pointer moves at any
  position included, the sidebar width lies in the range from 200 to 600.
\<close>

theorem sidebarWidth_bounded:
  "run rawData initial evs = Some s \<Longrightarrow> 200 \<le> sidebarWidth s \<and> sidebarWidth s \<le> 600"
proof -
  assume r: "run rawData initial evs = Some s"
  have "200 < sidebarWidth initial \<and> sidebarWidth initial < 600" by (simp add: initial_def)
  from run_width [OF r this] show ?thesis by simp
qed

theorem sidebarWidth_bounded_witness:
  "run [] initial [HandleMouseDown, MouseMove 100000, MouseMove (- 5), MouseMove 450,
      MouseMove 600, MouseUp, MouseMove 300] = Some (initial\<lparr>sidebarWidth := 450\<rparr>) \<and>
   200 \<le> sidebarWidth (initial\<lparr>sidebarWidth := 450\<rparr>) \<and>
   sidebarWidth (initial\<lparr>sidebarWidth := 450\<rparr>) \<le> 600"
proof -
  have r: "run [] initial [HandleMouseDown, MouseMove 100000, MouseMove (- 5), MouseMove 450,
      MouseMove 600, MouseUp, MouseMove 300] = Some (initial\<lparr>sidebarWidth := 450\<rparr>)"
    by code_simp
  from sidebarWidth_bounded [OF r] show ?thesis using r by blast
qed

section \<open>Highlighter style\<close>

lemma find_theme: "t \<in> set THEMES \<Longrightarrow> find (\<lambda>u. theme_id u = theme_id t) THEMES = Some t"
  unfolding THEMES_def by (elim disjE | simp)+

lemma theme_ids:
  "set (map theme_id THEMES) = {''light'', ''github'', ''vscode'', ''dracula'', ''solarized''}"
  by (simp add: THEMES_def)

lemma accent_ids:
  "set (map accent_id ACCENTS) = {''blue'', ''purple'', ''emerald'', ''orange'', ''rose''}"
  by (simp add: ACCENTS_def)

lemma find_by_key:
  "x \<in> set (map k xs) \<Longrightarrow> \<exists>y. find (\<lambda>u. k u = x) xs = Some y \<and> y \<in> set xs \<and> k y = x"
  by (induction xs) auto

lemma getSyntaxStyle_total:
  assumes "currentTheme s \<in> set (map theme_id THEMES)"
  shows "\<exists>st. getSyntaxStyle s = Inr st"
proof -
  from find_by_key [OF assms] obtain t where "activeThemeObj s = Some t"
    unfolding activeThemeObj_def by blast
  then show ?thesis by (simp add: getSyntaxStyle_def)
qed

text \<open>
  Claim C4. The highlighter style depends on the current theme only: \<open>dracula\<close> gives the
  dracula table, \<open>solarized\<close> the solarized table, every other declared theme the dark
  default table when its dark flag is set and the light default table otherwise; two
  states with the same current theme get the same table, whatever else differs.
\<close>

theorem getSyntaxStyle_by_theme:
  "(currentTheme s = ''dracula'' \<longrightarrow> getSyntaxStyle s = Inr dracula) \<and>
   (currentTheme s = ''solarized'' \<longrightarrow> getSyntaxStyle s = Inr solarizedlight) \<and>
   (\<forall>t \<in> set THEMES. currentTheme s = theme_id t \<and> theme_id t \<noteq> ''dracula'' \<and>
        theme_id t \<noteq> ''solarized'' \<longrightarrow>
      getSyntaxStyle s = Inr (if isDark t then vscDarkPlus else ghcolors)) \<and>
   (currentTheme s' = currentTheme s \<longrightarrow> getSyntaxStyle s' = getSyntaxStyle s)"
proof (intro conjI impI ballI)
  show "getSyntaxStyle s = Inr dracula" if "currentTheme s = ''dracula''"
    using that by (simp add: getSyntaxStyle_def)
  show "getSyntaxStyle s = Inr solarizedlight" if "currentTheme s = ''solarized''"
    using that by (simp add: getSyntaxStyle_def)
  show "getSyntaxStyle s = Inr (if isDark t then vscDarkPlus else ghcolors)"
    if "t \<in> set THEMES"
      and "currentTheme s = theme_id t \<and> theme_id t \<noteq> ''dracula'' \<and> theme_id t \<noteq> ''solarized''"
    for t
    using that by (simp add: getSyntaxStyle_def activeThemeObj_def find_theme)
  show "getSyntaxStyle s' = getSyntaxStyle s" if "currentTheme s' = currentTheme s"
    using that by (simp add: getSyntaxStyle_def activeThemeObj_def)
qed

theorem getSyntaxStyle_by_theme_witness:
  "getSyntaxStyle (initial\<lparr>currentTheme := ''dracula''\<rparr>) = Inr dracula \<and>
   getSyntaxStyle (initial\<lparr>currentTheme := ''solarized''\<rparr>) = Inr solarizedlight \<and>
   getSyntaxStyle initial = Inr vscDarkPlus \<and>
   getSyntaxStyle (initial\<lparr>currentTheme := ''light''\<rparr>) = Inr ghcolors \<and>
   getSyntaxStyle (initial\<lparr>viewMode := ''code''\<rparr>) = getSyntaxStyle initial"
proof -
  have a: "getSyntaxStyle (initial\<lparr>currentTheme := ''dracula''\<rparr>) = Inr dracula"
    using getSyntaxStyle_by_theme [of "initial\<lparr>currentTheme := ''dracula''\<rparr>"] by simp
  have b: "getSyntaxStyle (initial\<lparr>currentTheme := ''solarized''\<rparr>) = Inr solarizedlight"
    using getSyntaxStyle_by_theme [of "initial\<lparr>currentTheme := ''solarized''\<rparr>"] by simp
  have c: "getSyntaxStyle initial = Inr vscDarkPlus"
    using getSyntaxStyle_by_theme [of initial, THEN conjunct2, THEN conjunct2, THEN conjunct1,
        THEN bspec, of "\<lparr>theme_id = ''github'', theme_name = ''GitHub Dark'', isDark = True\<rparr>"]
    by (simp add: THEMES_def initial_def)
  have d: "getSyntaxStyle (initial\<lparr>currentTheme := ''light''\<rparr>) = Inr ghcolors"
    using getSyntaxStyle_by_theme [of "initial\<lparr>currentTheme := ''light''\<rparr>",
        THEN conjunct2, THEN conjunct2, THEN conjunct1,
        THEN bspec, of "\<lparr>theme_id = ''light'', theme_name = ''Light'', isDark = False\<rparr>"]
    by (simp add: THEMES_def)
  have e: "getSyntaxStyle (initial\<lparr>viewMode := ''code''\<rparr>) = getSyntaxStyle initial"
    using getSyntaxStyle_by_theme [of initial "initial\<lparr>viewMode := ''code''\<rparr>"] by simp
  from a b c d e show ?thesis by blast
qed

section \<open>Rendering of the file tree\<close>

lemma elementOf_mountChild: "elementOf (mountChild el) = el"
  by (simp add: elementOf_def mountChild_def)

lemma elementOf_updateChild: "inst_key c = el_key el \<Longrightarrow> elementOf (updateChild c el) = el"
  by (simp add: elementOf_def updateChild_def)

lemma updateFromMap_elements: "map elementOf (updateFromMap existing els) = els"
proof (induction els arbitrary: existing)
  case Nil
  then show ?case by simp
next
  case (Cons el els)
  show ?case
  proof (cases "find (\<lambda>c. inst_key c = el_key el) existing")
    case None
    then show ?thesis by (simp add: Cons.IH elementOf_mountChild)
  next
    case (Some c)
    then have "inst_key c = el_key el" by (auto simp: find_Some_iff)
    with Some show ?thesis by (simp add: Cons.IH elementOf_updateChild)
  qed
qed

lemma reconcileChildren_elements: "map elementOf (fst (reconcileChildren olds els)) = els"
proof (induction olds els rule: reconcileChildren.induct)
  case (1 olds)
  show ?case by simp
next
  case (2 el els)
  show ?case by (simp add: comp_def elementOf_mountChild)
next
  case (3 c olds el els)
  show ?case
  proof (cases "inst_key c = el_key el")
    case True
    obtain cs left where r: "reconcileChildren olds els = (cs, left)" by (cases "reconcileChildren olds els")
    with "3.IH" [OF True] have "map elementOf cs = els" by simp
    with True r show ?thesis by (simp add: elementOf_updateChild)
  next
    case False
    have "map elementOf (updateFromMap (mapRemainingChildren (c # olds)) (el # els)) = el # els"
      by (rule updateFromMap_elements)
    with False show ?thesis by (simp del: updateFromMap.simps mapRemainingChildren.simps)
  qed
qed

lemma shadowed_distinct: "distinct (map inst_key cs) \<Longrightarrow> shadowed cs = []"
  by (induction cs) auto

lemma reconcileChildren_no_stale:
  "distinct (map inst_key olds) \<Longrightarrow> snd (reconcileChildren olds els) = []"
proof (induction olds els rule: reconcileChildren.induct)
  case (1 olds)
  show ?case by simp
next
  case (2 el els)
  show ?case by simp
next
  case (3 c olds el els)
  from "3.prems" have d: "distinct (map inst_key olds)" by simp
  show ?case
  proof (cases "inst_key c = el_key el")
    case True
    obtain cs left where r: "reconcileChildren olds els = (cs, left)" by (cases "reconcileChildren olds els")
    with "3.IH" [OF True d] have "left = []" by simp
    with True r show ?thesis by simp
  next
    case False
    from shadowed_distinct [OF "3.prems"] have "shadowed (c # olds) = []" .
    with False show ?thesis
      by (simp del: updateFromMap.simps mapRemainingChildren.simps shadowed.simps)
  qed
qed

lemma keys_of_elements: "map inst_key cs = map el_key (map elementOf cs)"
  by (simp add: elementOf_def comp_def)

lemma folders_of_elements: "map inst_folder cs = map el_folder (map elementOf cs)"
  by (simp add: elementOf_def comp_def)

lemma reconcile_elements: "map elementOf (tree_children (reconcile tr els)) = els"
proof -
  obtain cs left where r: "reconcileChildren (tree_children tr) els = (cs, left)"
    by (cases "reconcileChildren (tree_children tr) els")
  with reconcileChildren_elements [of "tree_children tr" els] show ?thesis
    by (simp add: reconcile_def)
qed

lemma reconcile_stale:
  "distinct (map inst_key (tree_children tr)) \<Longrightarrow> tree_stale (reconcile tr els) = tree_stale tr"
proof -
  assume d: "distinct (map inst_key (tree_children tr))"
  obtain cs left where r: "reconcileChildren (tree_children tr) els = (cs, left)"
    by (cases "reconcileChildren (tree_children tr) els")
  with reconcileChildren_no_stale [OF d, of els] show ?thesis
    by (simp add: reconcile_def)
qed

lemma clickFolder_elements:
  "map elementOf (tree_children (clickFolder i tr)) = map elementOf (tree_children tr)"
  by (simp add: clickFolder_def elementOf_def map_update list_update_same_conv)

lemma clickFolder_stale: "tree_stale (clickFolder i tr) = tree_stale tr"
  by (simp add: clickFolder_def)

lemma distinct_map_sort_key: "distinct (map f (sort_key k xs)) = distinct (map f xs)"
proof -
  have "mset (map f (sort_key k xs)) = mset (map f xs)" by simp
  then show ?thesis by (rule mset_eq_imp_distinct_iff)
qed

lemma FileTree_folders: "map el_folder (FileTree data sp) = sortedFolders data"
  by (simp add: FileTree_def comp_def)

lemma FileTree_keys: "map el_key (FileTree data sp) = map folder (sortedFolders data)"
  by (simp add: FileTree_def comp_def)

lemma FileTree_selected: "el \<in> set (FileTree data sp) \<Longrightarrow> el_selectedPath el = sp"
  by (auto simp: FileTree_def)

lemma distinct_filteredData:
  assumes "distinct (map folder rawData)"
  shows "distinct (map folder (filteredData lower rawData t))"
proof -
  have "map folder (filteredData lower rawData t) =
      map folder (filter (\<lambda>g. t = [] \<or> (\<exists>f\<in>set (files g). sublist (lower t) (lower (name f))))
        rawData)"
    by (subst filteredData_groups) (simp add: comp_def)
  with assms show ?thesis by (simp add: distinct_map_filter)
qed

lemma distinct_FileTree_keys:
  "distinct (map folder rawData) \<Longrightarrow>
   distinct (map el_key (FileTree (filteredData lower rawData t) sp))"
  by (simp add: FileTree_keys sortedFolders_def distinct_map_sort_key distinct_filteredData)

text \<open>With distinct folder names nothing is ever left behind.\<close>

lemma treeStep_clean:
  assumes d: "distinct (map folder rawData)"
    and inv: "tree_stale tr = [] \<and> distinct (map inst_key (tree_children tr))"
  shows "tree_stale (treeStep lower rawData tr u) = [] \<and>
    distinct (map inst_key (tree_children (treeStep lower rawData tr u)))"
proof (cases u)
  case (Render t sp)
  let ?els = "FileTree (filteredData lower rawData t) sp"
  from inv have "tree_stale (reconcile tr ?els) = []" by (simp add: reconcile_stale)
  moreover have "map inst_key (tree_children (reconcile tr ?els)) = map el_key ?els"
    by (simp only: keys_of_elements reconcile_elements)
  ultimately show ?thesis using Render distinct_FileTree_keys [OF d, of lower t sp] by simp
next
  case (ClickFolder i)
  have "map inst_key (tree_children (clickFolder i tr)) = map inst_key (tree_children tr)"
    by (simp only: keys_of_elements clickFolder_elements)
  with inv ClickFolder show ?thesis by (simp add: clickFolder_stale)
qed

lemma foldl_treeStep_clean:
  assumes d: "distinct (map folder rawData)"
  shows "tree_stale tr = [] \<and> distinct (map inst_key (tree_children tr)) \<Longrightarrow>
    tree_stale (foldl (treeStep lower rawData) tr us) = [] \<and>
    distinct (map inst_key (tree_children (foldl (treeStep lower rawData) tr us)))"
proof (induction us arbitrary: tr)
  case Nil
  then show ?case by simp
next
  case (Cons u us)
  from Cons.IH [OF treeStep_clean [OF d Cons.prems]] show ?case by simp
qed

lemma clicks_elements:
  "map elementOf (tree_children (foldl (treeStep lower rawData) tr (map ClickFolder cs))) =
     map elementOf (tree_children tr)"
  by (induction cs arbitrary: tr) (simp_all add: clickFolder_elements)

lemma clicks_stale:
  "tree_stale (foldl (treeStep lower rawData) tr (map ClickFolder cs)) = tree_stale tr"
  by (induction cs arbitrary: tr) (simp_all add: clickFolder_stale)

text \<open>The tree after any updates, a render with the term \<open>t\<close>, and any clicks since.\<close>

lemma treeAfter_elements:
  "map elementOf (tree_children
      (treeAfter lower rawData (us @ Render t sp # map ClickFolder cs))) =
    FileTree (filteredData lower rawData t) sp"
  by (simp add: treeAfter_def clicks_elements reconcile_elements)

lemma treeAfter_clean:
  assumes "distinct (map folder rawData)"
  shows "tree_stale (treeAfter lower rawData us) = []"
  using foldl_treeStep_clean [OF assms, of emptyTree lower us]
  by (simp add: treeAfter_def emptyTree_def)

lemma treeAfter_folders:
  "map inst_folder (tree_children
      (treeAfter lower rawData (us @ Render t sp # map ClickFolder cs))) =
    sortedFolders (filteredData lower rawData t)"
  by (simp only: folders_of_elements treeAfter_elements FileTree_folders)

lemma FolderGroup_None_iff: "FolderGroup fg isOpen sp = None \<longleftrightarrow> files fg = []"
  by (simp add: FolderGroup_def Let_def)

lemma displayName_FolderGroup:
  "FolderGroup fg isOpen sp = Some n \<Longrightarrow> displayName n = label fg"
  by (auto simp: FolderGroup_def label_def Let_def split: if_splits)

lemma shown_names:
  "map displayName (List.map_filter renderChild cs) =
     map label (filter (\<lambda>g. files g \<noteq> []) (map inst_folder cs))"
proof (induction cs)
  case Nil
  show ?case by (simp add: List.map_filter_def)
next
  case (Cons c cs)
  show ?case
  proof (cases "renderChild c")
    case None
    then have "files (inst_folder c) = []" by (simp add: renderChild_def FolderGroup_None_iff)
    with None Cons show ?thesis by (simp add: List.map_filter_def)
  next
    case (Some n)
    then have fg: "FolderGroup (inst_folder c) (inst_isOpen c) (inst_selectedPath c) = Some n"
      by (simp add: renderChild_def)
    then have "FolderGroup (inst_folder c) (inst_isOpen c) (inst_selectedPath c) \<noteq> None" by simp
    then have "files (inst_folder c) \<noteq> []" by (simp only: FolderGroup_None_iff not_False_eq_True)
    moreover from fg have "displayName n = label (inst_folder c)" by (rule displayName_FolderGroup)
    ultimately have "files (inst_folder c) \<noteq> []" and "displayName n = label (inst_folder c)"
      by simp_all
    with Some Cons show ?thesis by (simp add: List.map_filter_def)
  qed
qed

lemma treeAfter_names:
  "map displayName (shown (treeAfter lower rawData (us @ Render t sp # map ClickFolder cs))) =
     map label (filter (\<lambda>g. files g \<noteq> []) (sortedFolders (filteredData lower rawData t)))"
  by (simp only: shown_def shown_names treeAfter_folders)

lemma sorted_hd_min: "sorted (map k xs) \<Longrightarrow> y \<in> set xs \<Longrightarrow> k (hd xs) \<le> k y"
  by (cases xs) auto

lemma length_str: "length (str s) = length s"
  by (simp add: str_def)

lemma root_first:
  assumes root: "\<exists>g \<in> set data. folder g = str ''.'' \<and> files g \<noteq> []"
    and long: "\<forall>g \<in> set data. folder g \<noteq> str ''.'' \<longrightarrow> 1 < length (folder g)"
  shows "filter (\<lambda>g. files g \<noteq> []) (sortedFolders data) \<noteq> [] \<and>
    label (hd (filter (\<lambda>g. files g \<noteq> []) (sortedFolders data))) = str ''Root''"
proof -
  let ?xs = "filter (\<lambda>g. files g \<noteq> []) (sortedFolders data)"
  from root obtain r where r: "r \<in> set data" and fr: "folder r = str ''.''" and nr: "files r \<noteq> []"
    by blast
  have set: "set ?xs = {g \<in> set data. files g \<noteq> []}" by (auto simp: sortedFolders_def)
  with r nr have rin: "r \<in> set ?xs" by simp
  then have ne: "?xs \<noteq> []" by (metis empty_iff list.set(1))
  then have "hd ?xs \<in> set ?xs" by (rule hd_in_set)
  with set have hd: "hd ?xs \<in> set data" by simp
  have "sorted (map (\<lambda>g. length (folder g)) (sortedFolders data))" by (simp add: sortedFolders_def)
  then have "sorted (map (\<lambda>g. length (folder g)) ?xs)" by (simp add: sorted_map sorted_wrt_filter)
  from sorted_hd_min [OF this rin]
  have "length (folder (hd ?xs)) \<le> length (folder r)" .
  with fr have "length (folder (hd ?xs)) \<le> 1" by (simp add: length_str)
  with long hd have "folder (hd ?xs) = str ''.''" by fastforce
  with ne show ?thesis by (simp add: label_def)
qed




text \<open>
  Claim C7, as amended. The tree lays the groups out sorted by ascending folder-name
  length, a rearrangement of the data in which groups with equally long folder names keep
  their catalog order, one element per group, keyed by the folder name. When the folder
  names of the catalog are pairwise distinct, the nodes on the page are those of the
  non-empty groups of the filtered catalog in that order, the root group labelled
  \<open>Root\<close>, and nothing else; the root group is then the first node when it is among the
  non-empty groups and every other folder name is longer than one character.
\<close>

theorem FileTree_order:
  "sorted (map (\<lambda>g. length (folder g)) (sortedFolders data)) \<and>
   mset (sortedFolders data) = mset data \<and>
   filter (\<lambda>g. length (folder g) = k) (sortedFolders data) =
     filter (\<lambda>g. length (folder g) = k) data \<and>
   map el_folder (FileTree data sp') = sortedFolders data \<and>
   map el_key (FileTree data sp') = map folder (sortedFolders data) \<and>
   (distinct (map folder rawData) \<longrightarrow>
      tree_stale (treeAfter lower rawData (us @ Render t sp # map ClickFolder cs)) = [] \<and>
      map displayName (shown (treeAfter lower rawData (us @ Render t sp # map ClickFolder cs))) =
        map label (filter (\<lambda>g. files g \<noteq> []) (sortedFolders (filteredData lower rawData t)))) \<and>
   (distinct (map folder rawData) \<and>
    (\<exists>g \<in> set (filteredData lower rawData t). folder g = str ''.'' \<and> files g \<noteq> []) \<and>
    (\<forall>g \<in> set (filteredData lower rawData t). folder g \<noteq> str ''.'' \<longrightarrow> 1 < length (folder g)) \<longrightarrow>
      tree_stale (treeAfter lower rawData (us @ Render t sp # map ClickFolder cs)) = [] \<and>
      shown (treeAfter lower rawData (us @ Render t sp # map ClickFolder cs)) \<noteq> [] \<and>
      displayName (hd (shown (treeAfter lower rawData (us @ Render t sp # map ClickFolder cs)))) =
        str ''Root'')"
proof -
  let ?T = "treeAfter lower rawData (us @ Render t sp # map ClickFolder cs)"
  let ?D = "filteredData lower rawData t"
  let ?xs = "filter (\<lambda>g. files g \<noteq> []) (sortedFolders ?D)"
  have names: "map displayName (shown ?T) = map label ?xs"
    by (rule treeAfter_names)
  have 1: "sorted (map (\<lambda>g. length (folder g)) (sortedFolders data))"
    by (simp add: sortedFolders_def)
  have 2: "mset (sortedFolders data) = mset data"
    by (simp add: sortedFolders_def)
  have 3: "filter (\<lambda>g. length (folder g) = k) (sortedFolders data) =
     filter (\<lambda>g. length (folder g) = k) data"
    unfolding sortedFolders_def by (rule sort_key_stable)
  have 4: "map el_folder (FileTree data sp') = sortedFolders data"
    by (rule FileTree_folders)
  have 5: "map el_key (FileTree data sp') = map folder (sortedFolders data)"
    by (rule FileTree_keys)
  have 6: "tree_stale ?T = [] \<and> map displayName (shown ?T) = map label ?xs"
    if "distinct (map folder rawData)"
    using treeAfter_clean [OF that] names by blast
  have 7: "tree_stale ?T = [] \<and> shown ?T \<noteq> [] \<and> displayName (hd (shown ?T)) = str ''Root''"
    if h: "distinct (map folder rawData) \<and>
      (\<exists>g \<in> set ?D. folder g = str ''.'' \<and> files g \<noteq> []) \<and>
      (\<forall>g \<in> set ?D. folder g \<noteq> str ''.'' \<longrightarrow> 1 < length (folder g))"
  proof -
    from h have d: "distinct (map folder rawData)"
      and root: "\<exists>g \<in> set ?D. folder g = str ''.'' \<and> files g \<noteq> []"
      and long: "\<forall>g \<in> set ?D. folder g \<noteq> str ''.'' \<longrightarrow> 1 < length (folder g)"
      by blast+
    from root_first [OF root long] have ne: "?xs \<noteq> []" and r: "label (hd ?xs) = str ''Root''"
      by blast+
    from names ne have sne: "shown ?T \<noteq> []" by auto
    then have "displayName (hd (shown ?T)) = hd (map displayName (shown ?T))"
      by (simp add: hd_map)
    also have "\<dots> = hd (map label ?xs)" by (simp only: names)
    also from ne have "\<dots> = label (hd ?xs)" by (simp add: hd_map)
    finally have "displayName (hd (shown ?T)) = str ''Root''" using r by simp
    with treeAfter_clean [OF d] sne show ?thesis by blast
  qed
  from 1 2 3 4 5 6 7 show ?thesis by blast
qed

theorem FileTree_order_witness:
  "distinct (map folder sampleCatalog) \<and>
   map folder (filteredData toLowerCaseBasic sampleCatalog []) = [str ''Net'', str ''Old'', str ''.''] \<and>
   shown (treeAfter toLowerCaseBasic sampleCatalog ([] @ Render [] None # map ClickFolder [])) \<noteq> [] \<and>
   displayName (hd (shown (treeAfter toLowerCaseBasic sampleCatalog
      ([] @ Render [] None # map ClickFolder [])))) = str ''Root''"
proof -
  have d: "distinct (map folder sampleCatalog)" by code_simp
  have m: "map folder (filteredData toLowerCaseBasic sampleCatalog []) =
      [str ''Net'', str ''Old'', str ''.'']"
    by code_simp
  have "list_ex (\<lambda>g. folder g = str ''.'' \<and> files g \<noteq> [])
      (filteredData toLowerCaseBasic sampleCatalog [])" by code_simp
  then have root: "\<exists>g \<in> set (filteredData toLowerCaseBasic sampleCatalog []).
      folder g = str ''.'' \<and> files g \<noteq> []"
    by (simp only: list_ex_iff)
  have "list_all (\<lambda>g. folder g \<noteq> str ''.'' \<longrightarrow> 1 < length (folder g))
      (filteredData toLowerCaseBasic sampleCatalog [])" by code_simp
  then have long: "\<forall>g \<in> set (filteredData toLowerCaseBasic sampleCatalog []).
      folder g \<noteq> str ''.'' \<longrightarrow> 1 < length (folder g)"
    by (simp only: list_all_iff)
  from FileTree_order [of "[]" 0 None sampleCatalog toLowerCaseBasic "[]" "[]" None "[]",
      THEN conjunct2, THEN conjunct2, THEN conjunct2, THEN conjunct2, THEN conjunct2,
      THEN conjunct2] d root long
  have "shown (treeAfter toLowerCaseBasic sampleCatalog
        ([] @ Render [] None # map ClickFolder [])) \<noteq> [] \<and>
      displayName (hd (shown (treeAfter toLowerCaseBasic sampleCatalog
        ([] @ Render [] None # map ClickFolder [])))) = str ''Root''"
    by blast
  with d m show ?thesis by blast
qed

text \<open>
  The claim C7 as stated fails: a one-character folder name listed before the root group
  stays before it.
\<close>

theorem root_not_first_counterexample:
  "map folder (sortedFolders
      [\<lparr>folder = str ''a'', files = [\<lparr>path = str ''a/x.cs'', name = str ''x.cs'',
          explanation = [], code = []\<rparr>]\<rparr>,
       \<lparr>folder = str ''.'', files = [\<lparr>path = str ''y.cs'', name = str ''y.cs'',
          explanation = [], code = []\<rparr>]\<rparr>]) = [str ''a'', str ''.''] \<and>
   map displayName (shown (treeAfter toLowerCaseBasic
      [\<lparr>folder = str ''a'', files = [\<lparr>path = str ''a/x.cs'', name = str ''x.cs'',
          explanation = [], code = []\<rparr>]\<rparr>,
       \<lparr>folder = str ''.'', files = [\<lparr>path = str ''y.cs'', name = str ''y.cs'',
          explanation = [], code = []\<rparr>]\<rparr>] [Render [] None])) = [str ''a'', str ''Root''] \<and>
   tree_stale (treeAfter toLowerCaseBasic
      [\<lparr>folder = str ''a'', files = [\<lparr>path = str ''a/x.cs'', name = str ''x.cs'',
          explanation = [], code = []\<rparr>]\<rparr>,
       \<lparr>folder = str ''.'', files = [\<lparr>path = str ''y.cs'', name = str ''y.cs'',
          explanation = [], code = []\<rparr>]\<rparr>] [Render [] None]) = []"
  by code_simp

section \<open>Code view\<close>

text \<open>
  Claim C8. In code mode, with a file selected and a declared theme current, the main panel
  is the highlighter with the language \<open>csharp\<close>, line numbers on, the style table of the
  theme and the file's \<open>code\<close> field as its text, whatever the file's path or name.
\<close>

theorem code_view_csharp:
  assumes "selectedFile s = Some file" and "viewMode s = ''code''"
    and "currentTheme s \<in> set (map theme_id THEMES)"
  shows "\<exists>st. getSyntaxStyle s = Inr st \<and>
    mainContent s = Inr (CodeView \<lparr>language = ''csharp'', style = st, showLineNumbers = True,
      children = code file\<rparr>)"
proof -
  from getSyntaxStyle_total [OF assms(3)] obtain st where "getSyntaxStyle s = Inr st" ..
  with assms(1,2) show ?thesis by (simp add: mainContent_def)
qed

theorem code_view_csharp_witness:
  "mainContent (initial\<lparr>selectedFile := Some \<lparr>path = str ''tool.py'', name = str ''tool.py'',
       explanation = str ''# Tool'', code = str ''print(1)''\<rparr>, viewMode := ''code''\<rparr>) =
     Inr (CodeView \<lparr>language = ''csharp'', style = vscDarkPlus, showLineNumbers = True,
       children = str ''print(1)''\<rparr>)"
proof -
  let ?f = "\<lparr>path = str ''tool.py'', name = str ''tool.py'', explanation = str ''# Tool'',
    code = str ''print(1)''\<rparr>"
  let ?s = "initial\<lparr>selectedFile := Some ?f, viewMode := ''code''\<rparr>"
  have 1: "selectedFile ?s = Some ?f" by simp
  have 2: "viewMode ?s = ''code''" by simp
  have 3: "currentTheme ?s \<in> set (map theme_id THEMES)" by (simp add: initial_def THEMES_def)
  from code_view_csharp [OF 1 2 3] obtain st where st: "getSyntaxStyle ?s = Inr st"
    and m: "mainContent ?s = Inr (CodeView \<lparr>language = ''csharp'', style = st,
      showLineNumbers = True, children = code ?f\<rparr>)" by blast
  have "getSyntaxStyle ?s = Inr vscDarkPlus"
    by (simp add: getSyntaxStyle_def activeThemeObj_def initial_def THEMES_def)
  with st have "st = vscDarkPlus" by simp
  with m show ?thesis by simp
qed

section \<open>Theme effect\<close>

text \<open>
  Claim C9. Applying the theme and accent effect a second time with the same state leaves
  the document as the first application left it.
\<close>

theorem applyThemeAccent_idempotent:
  "applyThemeAccent s (applyThemeAccent s doc) = applyThemeAccent s doc"
  by (simp add: applyThemeAccent_def Let_def classList_add_def classList_remove_def
      split: option.splits)

section \<open>Theme and accent identifiers\<close>

lemma step_ids:
  "enabled rawData s e \<Longrightarrow> currentTheme s \<in> set (map theme_id THEMES) \<and>
     currentAccent s \<in> set (map accent_id ACCENTS) \<Longrightarrow>
   currentTheme (step s e) \<in> set (map theme_id THEMES) \<and>
     currentAccent (step s e) \<in> set (map accent_id ACCENTS)"
  by (cases e) (simp_all add: handler_defs Let_def)

lemma run_ids:
  "run rawData s evs = Some s' \<Longrightarrow>
   currentTheme s \<in> set (map theme_id THEMES) \<and> currentAccent s \<in> set (map accent_id ACCENTS) \<Longrightarrow>
   currentTheme s' \<in> set (map theme_id THEMES) \<and> currentAccent s' \<in> set (map accent_id ACCENTS)"
proof (induction evs arbitrary: s)
  case Nil
  then show ?case by simp
next
  case (Cons e evs)
  from Cons.prems(1) have en: "enabled rawData s e" and r: "run rawData (step s e) evs = Some s'"
    by (simp_all split: if_splits)
  from Cons.IH [OF r step_ids [OF en Cons.prems(2)]] show ?case .
qed

text \<open>
  Claim C10. In every state reached from the initial one, the current theme is one of the
  five declared theme ids and the current accent one of the five declared accent ids;
  both table lookups find an entry, and the header and the style selection, which
  dereference them, return without an error.
\<close>

theorem lookups_never_fail:
  assumes "run rawData initial evs = Some s"
  shows "currentTheme s \<in> {''light'', ''github'', ''vscode'', ''dracula'', ''solarized''} \<and>
    currentAccent s \<in> {''blue'', ''purple'', ''emerald'', ''orange'', ''rose''} \<and>
    (\<exists>t. activeThemeObj s = Some t \<and> theme_id t = currentTheme s) \<and>
    (\<exists>a. activeAccentObj s = Some a \<and> accent_id a = currentAccent s) \<and>
    (\<exists>h. header s = Inr h) \<and>
    (\<exists>st. getSyntaxStyle s = Inr st)"
proof -
  have "currentTheme initial \<in> set (map theme_id THEMES) \<and>
      currentAccent initial \<in> set (map accent_id ACCENTS)"
    by (simp add: initial_def THEMES_def ACCENTS_def)
  from run_ids [OF assms this]
  have th: "currentTheme s \<in> set (map theme_id THEMES)"
    and ac: "currentAccent s \<in> set (map accent_id ACCENTS)" by simp_all
  from find_by_key [OF th] obtain t where t: "activeThemeObj s = Some t" "theme_id t = currentTheme s"
    unfolding activeThemeObj_def by blast
  from find_by_key [OF ac] obtain a where a: "activeAccentObj s = Some a" "accent_id a = currentAccent s"
    unfolding activeAccentObj_def by blast
  from t a have h: "\<exists>h. header s = Inr h" by (simp add: header_def)
  from th ac t a h getSyntaxStyle_total [OF th] show ?thesis
    unfolding theme_ids accent_ids by blast
qed

theorem lookups_never_fail_witness:
  "run sampleCatalog initial
      [PickTheme \<lparr>theme_id = ''solarized'', theme_name = ''Solarized'', isDark = False\<rparr>,
       PickAccent \<lparr>accent_id = ''rose'', accent_name = ''Rose'', color = ''#e11d48'',
         dim = ''rgba(225, 29, 72, 0.15)''\<rparr>] =
     Some (initial\<lparr>currentTheme := ''solarized'', currentAccent := ''rose''\<rparr>) \<and>
   header (initial\<lparr>currentTheme := ''solarized'', currentAccent := ''rose''\<rparr>) =
     Inr \<lparr>swatch = ''#e11d48'', themeLabel = ''Solarized''\<rparr>"
proof -
  let ?s = "initial\<lparr>currentTheme := ''solarized'', currentAccent := ''rose''\<rparr>"
  have r: "run sampleCatalog initial
      [PickTheme \<lparr>theme_id = ''solarized'', theme_name = ''Solarized'', isDark = False\<rparr>,
       PickAccent \<lparr>accent_id = ''rose'', accent_name = ''Rose'', color = ''#e11d48'',
         dim = ''rgba(225, 29, 72, 0.15)''\<rparr>] = Some ?s"
    by code_simp
  from lookups_never_fail [OF r] obtain h where h: "header ?s = Inr h" by blast
  have "header ?s = Inr \<lparr>swatch = ''#e11d48'', themeLabel = ''Solarized''\<rparr>"
    by code_simp
  with r h show ?thesis by simp
qed

end
